theory Spec2Isabelle
  imports Main
begin

section \<open>Data model\<close>

text \<open>
  The program is \<^verbatim>\<open>src/app.ts\<close>: a store of projects that notifies listeners, a
  validation function, a form that feeds the store, and views of the store's contents.

  \<^item> Strings are \<^typ>\<open>string\<close>; a \<^typ>\<open>char\<close> stands for one UTF-16 code unit below
    256, so \<^const>\<open>length\<close> is JavaScript's \<^verbatim>\<open>.length\<close> on such strings.
  \<^item> Mutable objects and arrays live in an explicit heap, and every function that
    changes them takes the heap and returns the new one.
  \<^item> What the program reads from its environment is an argument: the text of the input
    fields, the string \<^verbatim>\<open>Math.random().toString()\<close> yields, and the conversion of
    text to a number by unary plus.
  \<^item> What it does to its environment is recorded: alerts shown, lines printed, and the
    listener calls made.
  \<^item> The document tree (templates, elements, rendering) is not modelled.
\<close>

text \<open>\<^verbatim>\<open>enum ProjectStatus { Active, Finished }\<close>\<close>

datatype ProjectStatus = Active | Finished

text \<open>
  \<^verbatim>\<open>class Project { constructor(public id: string, public title: string,
     public description: string, public people: number, public status: ProjectStatus) {} }\<close>

  The field \<^verbatim>\<open>id\<close> is named \<open>id'\<close> here. The store and the form never inspect
  \<^verbatim>\<open>people\<close>, so its type is a parameter \<open>'n\<close>; the item view and \<^verbatim>\<open>validate\<close>
  use the type \<open>number\<close> below.
\<close>

record 'n Project =
  id' :: string
  title :: string
  description :: string
  people :: 'n
  status :: ProjectStatus

subsection \<open>Numbers and strings of the host language\<close>

text \<open>
  The numbers the item view and \<^verbatim>\<open>validate\<close> are applied to: the integer-valued
  numbers and NaN. Fractions and the infinities are not represented.
\<close>

datatype number = Num int | NaN

text \<open>The operator \<^verbatim>\<open><\<close> on numbers: every comparison with NaN is false.\<close>

fun less_number :: "number \<Rightarrow> number \<Rightarrow> bool" where
  "less_number (Num a) (Num b) = (a < b)"
| "less_number _ _ = False"

text \<open>\<^verbatim>\<open>a > b\<close> is \<^verbatim>\<open>b < a\<close>.\<close>

definition greater_number :: "number \<Rightarrow> number \<Rightarrow> bool" where
  "greater_number a b = less_number b a"

text \<open>
  Number-to-string conversion (template literals, \<^verbatim>\<open>toString()\<close>): decimal digits
  with a leading minus sign, and \<^verbatim>\<open>NaN\<close>. JavaScript prints an integer-valued number in
  this plain form while its magnitude is below \<open>10\<^sup>2\<^sup>1\<close>.
\<close>

definition digit_char :: "nat \<Rightarrow> char" where
  "digit_char d = ''0123456789'' ! d"

fun nat_to_string :: "nat \<Rightarrow> string" where
  "nat_to_string n =
     (if n < 10 then [digit_char n]
      else nat_to_string (n div 10) @ [digit_char (n mod 10)])"

declare nat_to_string.simps [simp del]

definition int_to_string :: "int \<Rightarrow> string" where
  "int_to_string i =
     (if i < 0 then CHR ''-'' # nat_to_string (nat (- i)) else nat_to_string (nat i))"

fun number_to_string :: "number \<Rightarrow> string" where
  "number_to_string (Num i) = int_to_string i"
| "number_to_string NaN = ''NaN''"

text \<open>
  \<^verbatim>\<open>String.prototype.trim\<close> removes white space and line terminators from both ends.
  Below 256 these are the code units 9 to 13, 32 and 160.
\<close>

definition isWhiteSpace :: "char \<Rightarrow> bool" where
  "isWhiteSpace c = ((of_char c :: nat) \<in> set [9, 10, 11, 12, 13, 32, 160])"

definition trim :: "string \<Rightarrow> string" where
  "trim s = rev (dropWhile isWhiteSpace (rev (dropWhile isWhiteSpace s)))"

section \<open>Validation\<close>

text \<open>
  \<^verbatim>\<open>interface Validatable { value: string | number; required?: boolean;
     minLength?: number; maxLength?: number; min?: number; max?: number; }\<close>

  An optional property that is absent is \<^const>\<open>None\<close>. The fields \<^verbatim>\<open>value\<close>,
  \<^verbatim>\<open>min\<close> and \<^verbatim>\<open>max\<close> carry a prime.
\<close>

datatype Value = Str string | Number number

record Validatable =
  value' :: Value
  required :: "bool option"
  minLength :: "number option"
  maxLength :: "number option"
  min' :: "number option"
  max' :: "number option"

text \<open>\<^verbatim>\<open>value.toString()\<close>\<close>

fun toString :: "Value \<Rightarrow> string" where
  "toString (Str s) = s"
| "toString (Number n) = number_to_string n"

text \<open>
  \<^verbatim>\<open>validate\<close>, lines 77 to 113: five guarded updates of \<^verbatim>\<open>isValid\<close>, in the
  order of the source. A guard \<^verbatim>\<open>x != null && typeof value === "string"\<close> is the
  pattern \<open>(Some x, Str s)\<close>.
\<close>

definition validate :: "Validatable \<Rightarrow> bool" where
  "validate validatableInput =
     (let isValid = True;
          isValid =
            (if required validatableInput = Some True
             then isValid \<and> length (trim (toString (value' validatableInput))) \<noteq> 0
             else isValid);
          isValid =
            (case (minLength validatableInput, value' validatableInput) of
               (Some b, Str s) \<Rightarrow> isValid \<and> greater_number (Num (int (length s))) b
             | _ \<Rightarrow> isValid);
          isValid =
            (case (maxLength validatableInput, value' validatableInput) of
               (Some b, Str s) \<Rightarrow> isValid \<and> less_number (Num (int (length s))) b
             | _ \<Rightarrow> isValid);
          isValid =
            (case (min' validatableInput, value' validatableInput) of
               (Some b, Number n) \<Rightarrow> isValid \<and> greater_number n b
             | _ \<Rightarrow> isValid);
          isValid =
            (case (max' validatableInput, value' validatableInput) of
               (Some b, Number n) \<Rightarrow> isValid \<and> less_number n b
             | _ \<Rightarrow> isValid)
      in isValid)"

text \<open>
  The three objects built in \<^verbatim>\<open>ProjectInput.gatherUserInput\<close>, lines 287 to 301, as
  functions of the entered text.
\<close>

definition titleValidatable :: "string \<Rightarrow> Validatable" where
  "titleValidatable enteredTitle =
     \<lparr>value' = Str enteredTitle, required = Some True, minLength = None,
      maxLength = None, min' = None, max' = None\<rparr>"

definition descriptionValidatable :: "string \<Rightarrow> Validatable" where
  "descriptionValidatable enteredDescription =
     \<lparr>value' = Str enteredDescription, required = Some True, minLength = Some (Num 5),
      maxLength = None, min' = None, max' = None\<rparr>"

definition peopleValidatable :: "string \<Rightarrow> Validatable" where
  "peopleValidatable enteredPeople =
     \<lparr>value' = Str enteredPeople, required = Some True, minLength = None,
      maxLength = None, min' = Some (Num 2), max' = Some (Num 5)\<rparr>"

section \<open>The item view\<close>

text \<open>
  \<^verbatim>\<open>get persons()\<close> of \<^verbatim>\<open>ProjectItem\<close>, lines 176 to 182, and the text that
  \<^verbatim>\<open>renderContent\<close> puts into the \<^verbatim>\<open>h3\<close> element, line 197.
\<close>

definition persons :: "number Project \<Rightarrow> string" where
  "persons project =
     (if people project = Num 1 then ''1 Person''
      else number_to_string (people project) @ '' persons'')"

definition h3_textContent :: "number Project \<Rightarrow> string" where
  "h3_textContent project = persons project @ ''Persons assingend.''"

section \<open>The list views\<close>

text \<open>
  The filter of the listener registered in \<^verbatim>\<open>ProjectList.configure\<close>, lines 219 to
  225. The view's \<^verbatim>\<open>type\<close> is one of the strings \<^verbatim>\<open>"active"\<close> and
  \<^verbatim>\<open>"finished "\<close>; the program builds one view of each (lines 334 and 335).
\<close>

definition relevantProjects :: "string \<Rightarrow> 'n Project list \<Rightarrow> 'n Project list" where
  "relevantProjects type projects =
     filter (\<lambda>prj. if type = ''active'' then status prj = Active
                    else status prj = Finished) projects"

section \<open>Objects and arrays\<close>

text \<open>
  \<^verbatim>\<open>addProject\<close> creates a \<^verbatim>\<open>Project\<close> object, pushes a reference to it onto the
  store's array and hands each listener \<^verbatim>\<open>this.projects.slice()\<close>: a new array
  holding the same references. What a listener can change through the array it is
  handed therefore depends on what is shared, so objects and arrays live in an explicit
  heap. A reference is an index: \<open>objects\<close> holds the \<^verbatim>\<open>Project\<close> objects and
  \<open>arrays\<close> the \<^verbatim>\<open>Project[]\<close> arrays, each array a list of object references.
  Nothing is ever deallocated; a new object or array takes the next index. A reference
  in a running program always points to an existing object or array: the operations
  below are applied to such references only.
\<close>

type_synonym ref = nat

record 'n Heap =
  objects :: "'n Project list"
  arrays :: "ref list list"

text \<open>\<^verbatim>\<open>new Project(...)\<close>\<close>

definition new_Project :: "'n Project \<Rightarrow> 'n Heap \<Rightarrow> ref \<times> 'n Heap" where
  "new_Project p h = (length (objects h), h\<lparr>objects := objects h @ [p]\<rparr>)"

text \<open>\<^verbatim>\<open>a.push(x)\<close>\<close>

definition push :: "ref \<Rightarrow> ref \<Rightarrow> 'n Heap \<Rightarrow> 'n Heap" where
  "push a x h = h\<lparr>arrays := (arrays h)[a := arrays h ! a @ [x]]\<rparr>"

text \<open>\<^verbatim>\<open>a.slice()\<close>\<close>

definition slice :: "ref \<Rightarrow> 'n Heap \<Rightarrow> ref \<times> 'n Heap" where
  "slice a h = (length (arrays h), h\<lparr>arrays := arrays h @ [arrays h ! a]\<rparr>)"

text \<open>The \<^verbatim>\<open>Project\<close> values an array holds, read through the heap.\<close>

definition elements :: "'n Heap \<Rightarrow> ref \<Rightarrow> 'n Project list" where
  "elements h a = map (\<lambda>r. objects h ! r) (arrays h ! a)"

section \<open>The store\<close>

text \<open>
  \<^verbatim>\<open>type Listener<T> = (items: T[]) => void\<close>. A listener is modelled by what it does
  to the heap when it is called with the reference of an array. Listeners that call back
  into the store or throw are outside the model.
\<close>

type_synonym 'n Listener = "ref \<Rightarrow> 'n Heap \<Rightarrow> 'n Heap"

text \<open>
  \<^verbatim>\<open>class State<T> { protected listeners: Listener<T>[] = []; addListener = ... }\<close>
  and \<^verbatim>\<open>class ProjectState extends State<Project> { private projects: Project[] = []; ... }\<close>
\<close>

record 'n State =
  listeners :: "'n Listener list"

record 'n ProjectState = "'n State" +
  projects :: ref

definition addListener :: "'n Listener \<Rightarrow> ('n, 'z) State_scheme \<Rightarrow> ('n, 'z) State_scheme" where
  "addListener listenerFn this = this\<lparr>listeners := listeners this @ [listenerFn]\<rparr>"

text \<open>
  \<^verbatim>\<open>new ProjectState()\<close>, as \<^verbatim>\<open>getInstance\<close> runs it on first access: no listeners
  and a new empty array.
\<close>

definition new_ProjectState :: "'n Heap \<Rightarrow> 'n ProjectState \<times> 'n Heap" where
  "new_ProjectState h =
     (\<lparr>listeners = [], projects = length (arrays h)\<rparr>, h\<lparr>arrays := arrays h @ [[]]\<rparr>)"

definition empty_heap :: "'n Heap" where
  "empty_heap = \<lparr>objects = [], arrays = []\<rparr>"

text \<open>
  One invocation of a listener, as \<^verbatim>\<open>addProject\<close> makes it: which function was
  called, the reference it was handed, and the heap at the moment of the call.
\<close>

record 'n Call =
  callee :: "'n Listener"
  items :: ref
  pre :: "'n Heap"

text \<open>
  The loop of lines 60 to 62:
  \<^verbatim>\<open>for (const listenerFn of this.listeners) { listenerFn(this.projects.slice()); }\<close>
\<close>

fun addProject_loop :: "'n Listener list \<Rightarrow> ref \<Rightarrow> 'n Heap \<Rightarrow> 'n Call list \<times> 'n Heap" where
  "addProject_loop [] this_projects h = ([], h)"
| "addProject_loop (listenerFn # rest) this_projects h =
     (let (copy, h1) = slice this_projects h;
          h2 = listenerFn copy h1;
          (calls, h3) = addProject_loop rest this_projects h2
      in (\<lparr>callee = listenerFn, items = copy, pre = h1\<rparr> # calls, h3))"

text \<open>
  \<^verbatim>\<open>addProject\<close>, lines 50 to 63. The argument \<open>rnd\<close> is the string that
  \<^verbatim>\<open>Math.random().toString()\<close> evaluates to in this call. The result lists the
  listener invocations the call made. The parameters \<^verbatim>\<open>title\<close> and
  \<^verbatim>\<open>description\<close> carry a prime, the fields of \<open>Project\<close> having these names.
\<close>

definition addProject ::
  "string \<Rightarrow> string \<Rightarrow> string \<Rightarrow> 'n \<Rightarrow> 'n ProjectState \<times> 'n Heap
     \<Rightarrow> 'n Call list \<times> 'n ProjectState \<times> 'n Heap" where
  "addProject rnd title' description' numberOfPeople = (\<lambda>(this, h).
     let (newProject, h1) =
           new_Project \<lparr>id' = rnd, title = title', description = description',
                        people = numberOfPeople, status = Active\<rparr> h;
         h2 = push (projects this) newProject h1;
         (calls, h3) = addProject_loop (listeners this) (projects this) h2
     in (calls, this, h3))"

text \<open>A sequence of \<^verbatim>\<open>addProject\<close> calls, each with its draw and its arguments.\<close>

fun addProjects ::
  "(string \<times> string \<times> string \<times> 'n) list \<Rightarrow> 'n ProjectState \<times> 'n Heap
     \<Rightarrow> 'n Call list list \<times> 'n ProjectState \<times> 'n Heap" where
  "addProjects [] s = ([], s)"
| "addProjects ((rnd, title', description', numberOfPeople) # rest) s =
     (let (calls, s1) = addProject rnd title' description' numberOfPeople s;
          (log, s2) = addProjects rest s1
      in (calls # log, s2))"

text \<open>The object an \<^verbatim>\<open>addProject\<close> call constructs from its draw and arguments.\<close>

fun constructed :: "string \<times> string \<times> string \<times> 'n \<Rightarrow> 'n Project" where
  "constructed (rnd, title', description', numberOfPeople) =
     \<lparr>id' = rnd, title = title', description = description',
      people = numberOfPeople, status = Active\<rparr>"

subsection \<open>The list views as listeners\<close>

text \<open>
  The listener of \<^verbatim>\<open>ProjectList.configure\<close>, lines 218 to 229, by its effect on the
  heap: \<^verbatim>\<open>projects.filter(...)\<close> allocates a new array of the references whose
  objects pass the test. The view keeps the new array in its field
  \<^verbatim>\<open>aasignedProjects\<close> and renders it; the field and the document are not part of
  the heap.
\<close>

definition ProjectList_listener :: "string \<Rightarrow> 'n Listener" where
  "ProjectList_listener type projects' h =
     h\<lparr>arrays := arrays h @
        [filter (\<lambda>r. if type = ''active'' then status (objects h ! r) = Active
                      else status (objects h ! r) = Finished)
           (arrays h ! projects')]\<rparr>"

subsection \<open>Conditions on stores and listeners\<close>

text \<open>
  The store's array exists and holds references to existing objects.
\<close>

definition store_ok :: "'n ProjectState \<Rightarrow> 'n Heap \<Rightarrow> bool" where
  "store_ok this h \<longleftrightarrow>
     projects this < length (arrays h) \<and>
     (\<forall>r \<in> set (arrays h ! projects this). r < length (objects h))"

text \<open>
  A listener that writes to no array but the one it is handed. It may allocate arrays
  and objects and may write to the fields of any object.
\<close>

definition writes_only_received :: "'n Listener \<Rightarrow> bool" where
  "writes_only_received listenerFn \<longleftrightarrow>
     (\<forall>a h. length (arrays h) \<le> length (arrays (listenerFn a h)) \<and>
            length (objects h) \<le> length (objects (listenerFn a h)) \<and>
            (\<forall>b < length (arrays h). b \<noteq> a \<longrightarrow> arrays (listenerFn a h) ! b = arrays h ! b))"

text \<open>A listener that leaves every existing object as it is.\<close>

definition leaves_objects :: "'n Listener \<Rightarrow> bool" where
  "leaves_objects listenerFn \<longleftrightarrow>
     (\<forall>a h. length (objects h) \<le> length (objects (listenerFn a h)) \<and>
            (\<forall>r < length (objects h). objects (listenerFn a h) ! r = objects h ! r))"

section \<open>The input form\<close>

text \<open>
  \<^verbatim>\<open>ProjectInput\<close> holds three input elements; the model keeps the \<^verbatim>\<open>value\<close> of
  each. \<^verbatim>\<open>alert\<close> and \<^verbatim>\<open>console.log\<close> append to a record of what was shown and
  printed, and \<^verbatim>\<open>event.preventDefault()\<close> sets a flag of the event.
\<close>

record ProjectInput =
  titleInputElement :: string
  descriptionInputElement :: string
  peopleInputElement :: string

record Event =
  defaultPrevented :: bool

record 'n App =
  prjInput :: ProjectInput
  projectState :: "'n ProjectState"
  heap :: "'n Heap"
  alerts :: "string list"
  console :: "(string \<times> string \<times> 'n) list"

text \<open>
  \<^verbatim>\<open>gatherUserInput\<close>, lines 282 to 312. It returns the triple or nothing
  (\<^verbatim>\<open>void\<close>). The parameter \<open>toNumber\<close> is the unary plus of line 310, which turns
  the entered text into a number.
\<close>

definition gatherUserInput ::
  "(string \<Rightarrow> 'n) \<Rightarrow> 'n App \<Rightarrow> (string \<times> string \<times> 'n) option \<times> 'n App" where
  "gatherUserInput toNumber app =
     (let enteredTitle = titleInputElement (prjInput app);
          enteredDescription = descriptionInputElement (prjInput app);
          enteredPeople = peopleInputElement (prjInput app)
      in if validate (titleValidatable enteredTitle) \<and>
            validate (descriptionValidatable enteredDescription) \<and>
            validate (peopleValidatable enteredPeople)
         then (None, app\<lparr>alerts := alerts app @ [''try again :('']\<rparr>)
         else (Some (enteredTitle, enteredDescription, toNumber enteredPeople), app))"

text \<open>\<^verbatim>\<open>clearInputs\<close>, lines 314 to 318.\<close>

definition clearInputs :: "'n App \<Rightarrow> 'n App" where
  "clearInputs app =
     app\<lparr>prjInput := (prjInput app)\<lparr>titleInputElement := [], peopleInputElement := [],
                                     descriptionInputElement := []\<rparr>\<rparr>"

text \<open>
  \<^verbatim>\<open>submitHandler\<close>, lines 321 to 330. \<open>rnd\<close> is the draw that \<^verbatim>\<open>addProject\<close>
  uses if it is called. The result lists the listener invocations made.
\<close>

definition submitHandler ::
  "(string \<Rightarrow> 'n) \<Rightarrow> string \<Rightarrow> Event \<Rightarrow> 'n App \<Rightarrow> Event \<times> 'n Call list \<times> 'n App" where
  "submitHandler toNumber rnd event app =
     (let event1 = event\<lparr>defaultPrevented := True\<rparr>;
          (userInput, app1) = gatherUserInput toNumber app
      in case userInput of
           None \<Rightarrow> (event1, [], app1)
         | Some (title', desc, people') \<Rightarrow>
             (let app2 = app1\<lparr>console := console app1 @ [(title', desc, people')]\<rparr>;
                  (calls, this, h) =
                     addProject rnd title' desc people' (projectState app2, heap app2);
                  app3 = app2\<lparr>projectState := this, heap := h\<rparr>
              in (event1, calls, clearInputs app3)))"

section \<open>Code outside the store\<close>

text \<open>
  Writes that code holding a reference to an array can make. \<^verbatim>\<open>items[i].title = s\<close>
  reaches the object the array refers to; where the array has no element \<open>i\<close> it
  throws a \<^verbatim>\<open>TypeError\<close>, which is \<^const>\<open>None\<close>. \<^verbatim>\<open>items.length = 0\<close> empties
  the array itself.
\<close>

definition assign_title :: "ref \<Rightarrow> nat \<Rightarrow> string \<Rightarrow> 'n Heap \<Rightarrow> 'n Heap option" where
  "assign_title a i s h =
     (if i < length (arrays h ! a)
      then (let r = arrays h ! a ! i
            in Some (h\<lparr>objects := (objects h)[r := (objects h ! r)\<lparr>title := s\<rparr>]\<rparr>))
      else None)"

definition truncate_array :: "ref \<Rightarrow> 'n Heap \<Rightarrow> 'n Heap" where
  "truncate_array a h = h\<lparr>arrays := (arrays h)[a := []]\<rparr>"

section \<open>Facts about the notification loop\<close>

lemma slice_simps [simp]:
  "fst (slice a h) = length (arrays h)"
  "arrays (snd (slice a h)) = arrays h @ [arrays h ! a]"
  "objects (snd (slice a h)) = objects h"
  by (simp_all add: slice_def)

text \<open>The loop calls the listeners in order, each once.\<close>

lemma loop_callee: "addProject_loop ls p h = (calls, h') \<Longrightarrow> map callee calls = ls"
  by (induction ls arbitrary: h calls h') (auto simp: Let_def split: prod.splits)

text \<open>
  The heap the loop returns is the heap after calling each listener in turn, each on a
  fresh slice of the store's array; every recorded call holds the reference and the heap
  its listener was called with.
\<close>

lemma loop_heap:
  "addProject_loop ls p h = (calls, h') \<Longrightarrow>
     h' = foldl (\<lambda>g l. l (fst (slice p g)) (snd (slice p g))) h ls"
proof (induction ls arbitrary: h calls h')
  case Nil
  then show ?case by simp
next
  case (Cons l ls)
  obtain calls2 h3 where rest:
    "addProject_loop ls p (l (fst (slice p h)) (snd (slice p h))) = (calls2, h3)"
    by (cases "addProject_loop ls p (l (fst (slice p h)) (snd (slice p h)))") auto
  have "h' = h3" using Cons.prems rest by (simp add: slice_def)
  then show ?case using Cons.IH [OF rest] by simp
qed

lemma loop_records:
  "addProject_loop ls p h = (calls, h') \<Longrightarrow> i < length ls \<Longrightarrow>
     callee (calls ! i) = ls ! i
   \<and> items (calls ! i)
       = fst (slice p (foldl (\<lambda>g l. l (fst (slice p g)) (snd (slice p g))) h (take i ls)))
   \<and> pre (calls ! i)
       = snd (slice p (foldl (\<lambda>g l. l (fst (slice p g)) (snd (slice p g))) h (take i ls)))"
proof (induction ls arbitrary: h calls h' i)
  case Nil
  then show ?case by simp
next
  case (Cons l ls)
  obtain calls2 h3 where rest:
    "addProject_loop ls p (l (fst (slice p h)) (snd (slice p h))) = (calls2, h3)"
    by (cases "addProject_loop ls p (l (fst (slice p h)) (snd (slice p h)))") auto
  have calls: "calls = \<lparr>callee = l, items = fst (slice p h), pre = snd (slice p h)\<rparr> # calls2"
    using Cons.prems(1) rest by (simp add: slice_def)
  show ?case
  proof (cases i)
    case 0
    then show ?thesis using calls by simp
  next
    case (Suc j)
    then have "j < length ls" using Cons.prems(2) by simp
    from Cons.IH [OF rest this] show ?thesis using Suc calls by simp
  qed
qed

text \<open>
  Each listener is handed an array allocated just before
  its call, holding what the store's array holds; as long as every listener writes only
  to the array it is handed, every array that existed before the loop is unchanged
  after it.
\<close>

lemma loop_arrays:
  assumes "\<forall>l \<in> set ls. writes_only_received l"
    and "addProject_loop ls p h = (calls, h')"
    and "p < length (arrays h)"
  shows "map callee calls = ls
    \<and> length (arrays h) \<le> length (arrays h')
    \<and> length (objects h) \<le> length (objects h')
    \<and> (\<forall>b < length (arrays h). arrays h' ! b = arrays h ! b)
    \<and> (\<forall>c \<in> set calls. length (arrays h) \<le> items c \<and> items c < length (arrays (pre c))
          \<and> Suc (items c) = length (arrays (pre c))
          \<and> length (arrays (pre c)) \<le> length (arrays h')
          \<and> arrays (pre c) ! items c = arrays h ! p)
    \<and> distinct (map items calls)"
  using assms
proof (induction ls arbitrary: h calls h')
  case Nil
  then show ?case by simp
next
  case (Cons l ls)
  define h1 where "h1 = snd (slice p h)"
  define h2 where "h2 = l (length (arrays h)) h1"
  obtain calls2 h3 where rest: "addProject_loop ls p h2 = (calls2, h3)"
    by (cases "addProject_loop ls p h2") auto
  have sl: "slice p h = (length (arrays h), h1)"
    by (simp add: h1_def slice_def)
  from Cons.prems(2) sl rest
  have calls: "calls = \<lparr>callee = l, items = length (arrays h), pre = h1\<rparr> # calls2"
    and h': "h' = h3"
    by (simp_all add: h2_def)
  have wl: "writes_only_received l" using Cons.prems(1) by simp
  have a1: "arrays h1 = arrays h @ [arrays h ! p]" and o1: "objects h1 = objects h"
    by (simp_all add: h1_def)
  have len2: "length (arrays h1) \<le> length (arrays h2)"
    and olen2: "length (objects h1) \<le> length (objects h2)"
    and fr2: "\<forall>b < length (arrays h1). b \<noteq> length (arrays h) \<longrightarrow> arrays h2 ! b = arrays h1 ! b"
    using wl unfolding writes_only_received_def h2_def by blast+
  have keep2: "\<forall>b < length (arrays h). arrays h2 ! b = arrays h ! b"
    using fr2 by (simp add: a1 nth_append)
  have p2: "p < length (arrays h2)" using Cons.prems(3) len2 by (simp add: a1)
  have IH: "map callee calls2 = ls
    \<and> length (arrays h2) \<le> length (arrays h3)
    \<and> length (objects h2) \<le> length (objects h3)
    \<and> (\<forall>b < length (arrays h2). arrays h3 ! b = arrays h2 ! b)
    \<and> (\<forall>c \<in> set calls2. length (arrays h2) \<le> items c \<and> items c < length (arrays (pre c))
          \<and> Suc (items c) = length (arrays (pre c))
          \<and> length (arrays (pre c)) \<le> length (arrays h3)
          \<and> arrays (pre c) ! items c = arrays h2 ! p)
    \<and> distinct (map items calls2)"
    using Cons.IH [OF _ rest p2] Cons.prems(1) by simp
  have lt: "length (arrays h) < length (arrays h2)" using len2 by (simp add: a1)
  have "map callee calls = l # ls" using IH calls by simp
  moreover have "length (arrays h) \<le> length (arrays h')" using IH lt h' by simp
  moreover have "length (objects h) \<le> length (objects h')" using IH olen2 o1 h' by simp
  moreover have "\<forall>b < length (arrays h). arrays h' ! b = arrays h ! b"
    using IH keep2 lt h' by simp
  moreover have "\<forall>c \<in> set calls. length (arrays h) \<le> items c \<and> items c < length (arrays (pre c))
          \<and> Suc (items c) = length (arrays (pre c))
          \<and> length (arrays (pre c)) \<le> length (arrays h')
          \<and> arrays (pre c) ! items c = arrays h ! p"
  proof
    fix c assume "c \<in> set calls"
    then consider "c = \<lparr>callee = l, items = length (arrays h), pre = h1\<rparr>" | "c \<in> set calls2"
      using calls by auto
    then show "length (arrays h) \<le> items c \<and> items c < length (arrays (pre c))
          \<and> Suc (items c) = length (arrays (pre c))
          \<and> length (arrays (pre c)) \<le> length (arrays h')
          \<and> arrays (pre c) ! items c = arrays h ! p"
    proof cases
      case 1
      then show ?thesis using len2 IH h' by (simp add: a1)
    next
      case 2
      then have "length (arrays h2) \<le> items c \<and> items c < length (arrays (pre c))
          \<and> Suc (items c) = length (arrays (pre c))
          \<and> length (arrays (pre c)) \<le> length (arrays h3)
          \<and> arrays (pre c) ! items c = arrays h2 ! p" using IH by blast
      then show ?thesis using lt keep2 Cons.prems(3) h' by simp
    qed
  qed
  moreover have "distinct (map items calls)"
  proof -
    have "\<forall>c \<in> set calls2. length (arrays h) < items c" using IH lt by fastforce
    then have "length (arrays h) \<notin> items ` set calls2" by auto
    then show ?thesis using IH calls by simp
  qed
  ultimately show ?case by blast
qed

text \<open>Listeners that leave objects alone leave them alone throughout the loop.\<close>

lemma loop_objects:
  assumes "\<forall>l \<in> set ls. leaves_objects l"
    and "addProject_loop ls p h = (calls, h')"
  shows "length (objects h) \<le> length (objects h')
    \<and> (\<forall>r < length (objects h). objects h' ! r = objects h ! r)
    \<and> (\<forall>c \<in> set calls. \<forall>r < length (objects h). objects (pre c) ! r = objects h ! r)"
  using assms
proof (induction ls arbitrary: h calls h')
  case Nil
  then show ?case by simp
next
  case (Cons l ls)
  define h1 where "h1 = snd (slice p h)"
  define h2 where "h2 = l (length (arrays h)) h1"
  obtain calls2 h3 where rest: "addProject_loop ls p h2 = (calls2, h3)"
    by (cases "addProject_loop ls p h2") auto
  have sl: "slice p h = (length (arrays h), h1)"
    by (simp add: h1_def slice_def)
  from Cons.prems(2) sl rest
  have calls: "calls = \<lparr>callee = l, items = length (arrays h), pre = h1\<rparr> # calls2"
    and h': "h' = h3"
    by (simp_all add: h2_def)
  have o1: "objects h1 = objects h" by (simp add: h1_def)
  have ll: "leaves_objects l" using Cons.prems(1) by simp
  have len2: "length (objects h) \<le> length (objects h2)"
    and keep2: "\<forall>r < length (objects h). objects h2 ! r = objects h ! r"
    using ll o1 unfolding leaves_objects_def h2_def by metis+
  have IH: "length (objects h2) \<le> length (objects h3)
    \<and> (\<forall>r < length (objects h2). objects h3 ! r = objects h2 ! r)
    \<and> (\<forall>c \<in> set calls2. \<forall>r < length (objects h2). objects (pre c) ! r = objects h2 ! r)"
    using Cons.IH [OF _ rest] Cons.prems(1) by simp
  show ?case using IH keep2 len2 calls h' o1 by auto
qed

lemma addProject_unfold:
  "addProject rnd t d n (this, h) = (calls, this', h') \<longleftrightarrow>
     this' = this \<and>
     addProject_loop (listeners this) (projects this)
       (push (projects this) (length (objects h))
          (h\<lparr>objects := objects h @ [constructed (rnd, t, d, n)]\<rparr>)) = (calls, h')"
  by (auto simp: addProject_def new_Project_def Let_def split: prod.splits)

text \<open>One call of \<^verbatim>\<open>addProject\<close>, at the level of references.\<close>

lemma addProject_arrays:
  assumes ok: "store_ok this h"
    and wl: "\<forall>l \<in> set (listeners this). writes_only_received l"
    and run: "addProject rnd t d n (this, h) = (calls, this', h')"
  shows "this' = this
    \<and> map callee calls = listeners this
    \<and> arrays h' ! projects this = arrays h ! projects this @ [length (objects h)]
    \<and> (\<forall>c \<in> set calls. arrays (pre c) ! items c = arrays h ! projects this @ [length (objects h)]
          \<and> length (arrays h) \<le> items c \<and> Suc (items c) = length (arrays (pre c))
          \<and> length (arrays (pre c)) \<le> length (arrays h'))
    \<and> distinct (map items calls)
    \<and> length (arrays h) \<le> length (arrays h')
    \<and> (\<forall>b < length (arrays h). b \<noteq> projects this \<longrightarrow> arrays h' ! b = arrays h ! b)
    \<and> store_ok this h'"
proof -
  define p where "p = projects this"
  define h2 where "h2 = push p (length (objects h)) (h\<lparr>objects := objects h @ [constructed (rnd, t, d, n)]\<rparr>)"
  have this': "this' = this" and loop: "addProject_loop (listeners this) p h2 = (calls, h')"
    using run by (simp_all add: addProject_unfold p_def h2_def)
  have p: "p < length (arrays h)" using ok by (simp add: store_ok_def p_def)
  have a2: "arrays h2 = (arrays h)[p := arrays h ! p @ [length (objects h)]]"
    and o2: "objects h2 = objects h @ [constructed (rnd, t, d, n)]"
    by (simp_all add: h2_def push_def)
  have p2: "p < length (arrays h2)" using p by (simp add: a2)
  note L = loop_arrays [OF wl loop p2]
  have len2: "length (arrays h2) = length (arrays h)" by (simp add: a2)
  have at_p: "arrays h2 ! p = arrays h ! p @ [length (objects h)]" using p by (simp add: a2)
  have "arrays h' ! p = arrays h ! p @ [length (objects h)]" using L p2 at_p by simp
  moreover have "\<forall>c \<in> set calls. arrays (pre c) ! items c = arrays h ! p @ [length (objects h)]
          \<and> length (arrays h) \<le> items c \<and> Suc (items c) = length (arrays (pre c))
          \<and> length (arrays (pre c)) \<le> length (arrays h')"
    using L at_p len2 by simp
  moreover have "\<forall>b < length (arrays h). b \<noteq> p \<longrightarrow> arrays h' ! b = arrays h ! b"
    using L len2 by (simp add: a2)
  moreover have "store_ok this h'"
  proof -
    have "length (objects h) < length (objects h')" using L by (simp add: o2)
    moreover have "\<forall>r \<in> set (arrays h ! p). r < length (objects h)"
      using ok by (simp add: store_ok_def p_def)
    moreover have "p < length (arrays h')" using L p2 by simp
    ultimately show ?thesis
      using \<open>arrays h' ! p = arrays h ! p @ [length (objects h)]\<close>
      by (auto simp: store_ok_def p_def [symmetric])
  qed
  ultimately show ?thesis using this' L len2 by (simp add: p_def)
qed

text \<open>One call of \<^verbatim>\<open>addProject\<close>, at the level of the objects referred to.\<close>

lemma addProject_values:
  assumes ok: "store_ok this h"
    and wl: "\<forall>l \<in> set (listeners this). writes_only_received l"
    and ll: "\<forall>l \<in> set (listeners this). leaves_objects l"
    and run: "addProject rnd t d n (this, h) = (calls, this', h')"
  shows "elements h' (projects this) = elements h (projects this) @ [constructed (rnd, t, d, n)]
    \<and> (\<forall>c \<in> set calls.
          elements (pre c) (items c) = elements h (projects this) @ [constructed (rnd, t, d, n)])"
proof -
  define p where "p = projects this"
  define k where "k = length (objects h)"
  define h2 where "h2 = push p k (h\<lparr>objects := objects h @ [constructed (rnd, t, d, n)]\<rparr>)"
  have loop: "addProject_loop (listeners this) p h2 = (calls, h')"
    using run by (simp add: addProject_unfold p_def h2_def k_def)
  have o2: "objects h2 = objects h @ [constructed (rnd, t, d, n)]"
    by (simp add: h2_def push_def)
  note A = addProject_arrays [OF ok wl run, folded p_def k_def]
  note O = loop_objects [OF ll loop]
  have old: "\<forall>r \<in> set (arrays h ! p). r < k"
    using ok by (simp add: store_ok_def p_def k_def)
  have vals: "map ((!) (objects g)) (arrays h ! p @ [k])
      = map ((!) (objects h)) (arrays h ! p) @ [constructed (rnd, t, d, n)]"
    if g: "\<forall>r < length (objects h2). objects g ! r = objects h2 ! r" for g
  proof -
    have "objects g ! r = objects h ! r" if "r \<in> set (arrays h ! p)" for r
    proof -
      have r: "r < length (objects h)" using that old by (simp add: k_def)
      then have "objects g ! r = objects h2 ! r" using g by (simp add: o2)
      then show ?thesis using r by (simp add: o2 nth_append)
    qed
    moreover have "objects g ! k = constructed (rnd, t, d, n)"
    proof -
      have "objects g ! k = objects h2 ! k" using g by (simp add: o2 k_def)
      then show ?thesis by (simp add: o2 k_def)
    qed
    ultimately show ?thesis by simp
  qed
  have "elements h' p = elements h p @ [constructed (rnd, t, d, n)]"
    using vals [of h'] O A by (simp add: elements_def)
  moreover have "\<forall>c \<in> set calls. elements (pre c) (items c) = elements h p @ [constructed (rnd, t, d, n)]"
  proof
    fix c assume c: "c \<in> set calls"
    then have "\<forall>r < length (objects h2). objects (pre c) ! r = objects h2 ! r" using O by blast
    from vals [OF this] A c show "elements (pre c) (items c) = elements h p @ [constructed (rnd, t, d, n)]"
      by (simp add: elements_def)
  qed
  ultimately show ?thesis by (simp add: p_def)
qed

lemma addProjects_Cons:
  "addProjects (a # rest) (this, h) = (log, this', h') \<longleftrightarrow>
     (\<exists>calls this1 h1 log'.
        addProject (fst a) (fst (snd a)) (fst (snd (snd a))) (snd (snd (snd a))) (this, h)
          = (calls, this1, h1) \<and>
        addProjects rest (this1, h1) = (log', this', h') \<and> log = calls # log')"
  by (cases a) (auto split: prod.splits)

text \<open>A sequence of calls.\<close>

lemma addProjects_arrays:
  assumes "store_ok this h"
    and "\<forall>l \<in> set (listeners this). writes_only_received l"
    and "addProjects args (this, h) = (log, this', h')"
  shows "this' = this \<and> store_ok this h' \<and> length log = length args
    \<and> length (arrays h' ! projects this) = length (arrays h ! projects this) + length args
    \<and> take (length (arrays h ! projects this)) (arrays h' ! projects this) = arrays h ! projects this
    \<and> (\<forall>i < length args. map callee (log ! i) = listeners this
          \<and> (\<forall>c \<in> set (log ! i). arrays (pre c) ! items c
                = take (length (arrays h ! projects this) + Suc i) (arrays h' ! projects this)))"
  using assms
proof (induction args arbitrary: h log h')
  case Nil
  then show ?case by simp
next
  case (Cons a rest)
  define p where "p = projects this"
  from Cons.prems(3) obtain calls this1 h1 log' where
    one: "addProject (fst a) (fst (snd a)) (fst (snd (snd a))) (snd (snd (snd a))) (this, h)
          = (calls, this1, h1)"
    and more: "addProjects rest (this1, h1) = (log', this', h')"
    and log: "log = calls # log'"
    unfolding addProjects_Cons by blast
  note A = addProject_arrays [OF Cons.prems(1,2) one, folded p_def]
  have this1: "this1 = this" using A by simp
  have ok1: "store_ok this h1" using A by simp
  note IH = Cons.IH [OF ok1 Cons.prems(2) more [unfolded this1], folded p_def]
  define xs where "xs = arrays h ! p"
  define fin where "fin = arrays h' ! p"
  have at1: "arrays h1 ! p = xs @ [length (objects h)]" using A by (simp add: xs_def)
  have tk1: "take (Suc (length xs)) fin = xs @ [length (objects h)]"
    using IH at1 by (simp add: fin_def)
  have tk0: "take (length xs) fin = xs"
  proof -
    have "take (length xs) fin = take (length xs) (take (Suc (length xs)) fin)" by simp
    also have "\<dots> = xs" unfolding tk1 by simp
    finally show ?thesis .
  qed
  have "\<forall>i < length (a # rest). map callee (log ! i) = listeners this
          \<and> (\<forall>c \<in> set (log ! i). arrays (pre c) ! items c = take (length xs + Suc i) fin)"
  proof (intro allI impI)
    fix i assume i: "i < length (a # rest)"
    show "map callee (log ! i) = listeners this
          \<and> (\<forall>c \<in> set (log ! i). arrays (pre c) ! items c = take (length xs + Suc i) fin)"
    proof (cases i)
      case 0
      then show ?thesis using A log tk1 by (simp add: xs_def)
    next
      case (Suc j)
      then have "j < length rest" using i by simp
      then show ?thesis using IH Suc log at1 by (simp add: fin_def)
    qed
  qed
  then show ?case using IH tk0 at1 log by (simp add: xs_def fin_def p_def)
qed

lemma addProjects_values:
  assumes "store_ok this h"
    and "\<forall>l \<in> set (listeners this). writes_only_received l"
    and "\<forall>l \<in> set (listeners this). leaves_objects l"
    and "addProjects args (this, h) = (log, this', h')"
  shows "elements h' (projects this) = elements h (projects this) @ map constructed args
    \<and> (\<forall>i < length args. \<forall>c \<in> set (log ! i).
          elements (pre c) (items c)
            = elements h (projects this) @ map constructed (take (Suc i) args))"
  using assms
proof (induction args arbitrary: h log h')
  case Nil
  then show ?case by simp
next
  case (Cons a rest)
  from Cons.prems(4) obtain calls this1 h1 log' where
    one: "addProject (fst a) (fst (snd a)) (fst (snd (snd a))) (snd (snd (snd a))) (this, h)
          = (calls, this1, h1)"
    and more: "addProjects rest (this1, h1) = (log', this', h')"
    and log: "log = calls # log'"
    unfolding addProjects_Cons by blast
  note A = addProject_arrays [OF Cons.prems(1,2) one]
  have this1: "this1 = this" using A by simp
  have ok1: "store_ok this h1" using A by simp
  note V = addProject_values [OF Cons.prems(1,2,3) one, simplified]
  note IH = Cons.IH [OF ok1 Cons.prems(2,3) more [unfolded this1]]
  have "\<forall>i < length (a # rest). \<forall>c \<in> set (log ! i).
          elements (pre c) (items c)
            = elements h (projects this) @ map constructed (take (Suc i) (a # rest))"
  proof (intro allI impI)
    fix i assume i: "i < length (a # rest)"
    show "\<forall>c \<in> set (log ! i). elements (pre c) (items c)
            = elements h (projects this) @ map constructed (take (Suc i) (a # rest))"
    proof (cases i)
      case 0
      then show ?thesis using V log by simp
    next
      case (Suc j)
      then have "j < length rest" using i by simp
      then show ?thesis using IH V Suc log by simp
    qed
  qed
  then show ?case using IH V by simp
qed

text \<open>
  The condition \<open>store_ok\<close> holds of a new store, and registering listeners and adding
  projects keep it.
\<close>

lemma store_ok_new: "store_ok (fst (new_ProjectState h)) (snd (new_ProjectState h))"
  by (simp add: store_ok_def new_ProjectState_def)

lemma store_ok_addListener: "store_ok (addListener f this) h = store_ok this h"
  by (simp add: store_ok_def addListener_def)

lemma store_ok_addProject:
  assumes "store_ok this h"
    and "\<forall>l \<in> set (listeners this). writes_only_received l"
    and "addProject rnd t d n (this, h) = (calls, this', h')"
  shows "store_ok this' h'"
  using addProject_arrays [OF assms] by simp

text \<open>
  The listeners the program registers, those of the two list views, write to no array
  that exists and leave objects alone; the array each allocates holds the filtered
  snapshot.
\<close>

lemma ProjectList_listener_writes: "writes_only_received (ProjectList_listener ty)"
  by (simp add: writes_only_received_def ProjectList_listener_def nth_append)

lemma ProjectList_listener_leaves: "leaves_objects (ProjectList_listener ty)"
  by (simp add: leaves_objects_def ProjectList_listener_def)

lemma ProjectList_listener_elements:
  "elements (ProjectList_listener ty a h) (length (arrays h))
     = relevantProjects ty (elements h a)"
  by (simp add: elements_def ProjectList_listener_def relevantProjects_def filter_map comp_def)

section \<open>Properties\<close>

text \<open>No plural label is the singular one: they end in different letters.\<close>

lemma append_persons_neq: "xs @ '' persons'' \<noteq> ''1 Person''"
proof
  assume "xs @ '' persons'' = ''1 Person''"
  then have "last (xs @ '' persons'') = last ''1 Person''" by simp
  then show False by simp
qed

text \<open>
  \<^bold>\<open>C1.\<close> On submission, when title, description and people all pass \<^verbatim>\<open>validate\<close>, the
  handler shows the alert and does not call \<^verbatim>\<open>addProject\<close>: no listener runs, and
  store, heap and input fields are as before. When not all three pass, it calls
  \<^verbatim>\<open>addProject\<close> with the entered title, the entered description and the people text
  turned into a number, and then clears the three input fields.
\<close>

theorem C1_submit_gate:
  fixes toNumber :: "string \<Rightarrow> 'n" and app :: "'n App"
  defines "t \<equiv> titleInputElement (prjInput app)"
    and "d \<equiv> descriptionInputElement (prjInput app)"
    and "p \<equiv> peopleInputElement (prjInput app)"
  defines "allValid \<equiv> validate (titleValidatable t) \<and> validate (descriptionValidatable d)
             \<and> validate (peopleValidatable p)"
  shows "(allValid \<longrightarrow>
            submitHandler toNumber rnd event app =
              (event\<lparr>defaultPrevented := True\<rparr>, [],
               app\<lparr>alerts := alerts app @ [''try again :('']\<rparr>))
       \<and> (\<not> allValid \<longrightarrow>
            submitHandler toNumber rnd event app =
              (case addProject rnd t d (toNumber p) (projectState app, heap app) of
                 (calls, this, h) \<Rightarrow>
                   (event\<lparr>defaultPrevented := True\<rparr>, calls,
                    app\<lparr>console := console app @ [(t, d, toNumber p)],
                        projectState := this, heap := h,
                        prjInput := \<lparr>titleInputElement = [], descriptionInputElement = [],
                                     peopleInputElement = []\<rparr>\<rparr>)))"
  unfolding allValid_def t_def d_def p_def
  by (cases "prjInput app")
     (auto simp: submitHandler_def gatherUserInput_def clearInputs_def Let_def split: prod.splits)

text \<open>Both branches at concrete inputs, on a store without listeners.\<close>

theorem C1_submit_gate_witness:
  "validate (titleValidatable ''Build API'') \<and> validate (descriptionValidatable ''Design the service'')
     \<and> validate (peopleValidatable ''3'')
   \<and> submitHandler (\<lambda>s. if s = ''3'' then Num 3 else NaN) ''0.5'' \<lparr>defaultPrevented = False\<rparr>
        \<lparr>prjInput = \<lparr>titleInputElement = ''Build API'',
                      descriptionInputElement = ''Design the service'',
                      peopleInputElement = ''3''\<rparr>,
         projectState = \<lparr>listeners = [], projects = 0\<rparr>,
         heap = \<lparr>objects = [], arrays = [[]]\<rparr>, alerts = [], console = []\<rparr>
      = (\<lparr>defaultPrevented = True\<rparr>, [],
         \<lparr>prjInput = \<lparr>titleInputElement = ''Build API'',
                       descriptionInputElement = ''Design the service'',
                       peopleInputElement = ''3''\<rparr>,
          projectState = \<lparr>listeners = [], projects = 0\<rparr>,
          heap = \<lparr>objects = [], arrays = [[]]\<rparr>, alerts = [''try again :(''], console = []\<rparr>)
   \<and> \<not> (validate (titleValidatable []) \<and> validate (descriptionValidatable ''short'')
          \<and> validate (peopleValidatable ''3''))
   \<and> submitHandler (\<lambda>s. if s = ''3'' then Num 3 else NaN) ''0.5'' \<lparr>defaultPrevented = False\<rparr>
        \<lparr>prjInput = \<lparr>titleInputElement = [], descriptionInputElement = ''short'',
                      peopleInputElement = ''3''\<rparr>,
         projectState = \<lparr>listeners = [], projects = 0\<rparr>,
         heap = \<lparr>objects = [], arrays = [[]]\<rparr>, alerts = [], console = []\<rparr>
      = (\<lparr>defaultPrevented = True\<rparr>, [],
         \<lparr>prjInput = \<lparr>titleInputElement = [], descriptionInputElement = [],
                       peopleInputElement = []\<rparr>,
          projectState = \<lparr>listeners = [], projects = 0\<rparr>,
          heap = \<lparr>objects = [\<lparr>id' = ''0.5'', title = [], description = ''short'',
                              people = Num 3, status = Active\<rparr>],
                  arrays = [[0]]\<rparr>,
          alerts = [], console = [([], ''short'', Num 3)]\<rparr>)"
proof -
  have v1: "validate (titleValidatable ''Build API'') \<and> validate (descriptionValidatable ''Design the service'')
     \<and> validate (peopleValidatable ''3'')"
    by (simp add: validate_def titleValidatable_def descriptionValidatable_def
        peopleValidatable_def trim_def isWhiteSpace_def greater_number_def)
  have v2: "\<not> (validate (titleValidatable []) \<and> validate (descriptionValidatable ''short'')
          \<and> validate (peopleValidatable ''3''))"
    by (simp add: validate_def titleValidatable_def trim_def)
  have add: "addProject ''0.5'' [] ''short'' (Num 3)
       (\<lparr>listeners = [], projects = 0\<rparr>, \<lparr>objects = [], arrays = [[]]\<rparr>)
     = ([], \<lparr>listeners = [], projects = 0\<rparr>,
        \<lparr>objects = [\<lparr>id' = ''0.5'', title = [], description = ''short'',
                     people = Num 3, status = Active\<rparr>], arrays = [[0]]\<rparr>)"
    by (simp add: addProject_def new_Project_def push_def)
  show ?thesis
    using v1 v2
      C1_submit_gate [where toNumber = "\<lambda>s. if s = ''3'' then Num 3 else NaN" and rnd = "''0.5''"
        and event = "\<lparr>defaultPrevented = False\<rparr>"
        and app = "\<lparr>prjInput = \<lparr>titleInputElement = ''Build API'',
                      descriptionInputElement = ''Design the service'',
                      peopleInputElement = ''3''\<rparr>,
         projectState = \<lparr>listeners = [], projects = 0\<rparr>,
         heap = \<lparr>objects = [], arrays = [[]]\<rparr>, alerts = [], console = []\<rparr>"]
      C1_submit_gate [where toNumber = "\<lambda>s. if s = ''3'' then Num 3 else NaN" and rnd = "''0.5''"
        and event = "\<lparr>defaultPrevented = False\<rparr>"
        and app = "\<lparr>prjInput = \<lparr>titleInputElement = [], descriptionInputElement = ''short'',
                      peopleInputElement = ''3''\<rparr>,
         projectState = \<lparr>listeners = [], projects = 0\<rparr>,
         heap = \<lparr>objects = [], arrays = [[]]\<rparr>, alerts = [], console = []\<rparr>"]
    by (simp add: add)
qed

text \<open>
  \<^bold>\<open>C2\<close> says that two \<^verbatim>\<open>addProject\<close> calls never create entities with equal ids.
  The id is the rendering of \<^verbatim>\<open>Math.random()\<close>, and \<^verbatim>\<open>addProject\<close> does not look
  at the ids already in the store: when two calls draw the same number, the two entities
  have the same id.
\<close>

theorem C2_equal_draws_counterexample:
  "map id' (elements
      (snd (snd (addProject ''0.5'' ''B'' ''second'' (2::int)
         (snd (addProject ''0.5'' ''A'' ''first'' 1 (new_ProjectState empty_heap))))))
      (projects (fst (new_ProjectState (empty_heap :: int Heap)))))
   = [''0.5'', ''0.5'']"
  by (simp add: addProject_def new_Project_def push_def new_ProjectState_def empty_heap_def
      elements_def)

text \<open>
  \<^bold>\<open>C2, amended.\<close> The entities a sequence of \<^verbatim>\<open>addProject\<close> calls creates carry, in
  order, the strings that \<^verbatim>\<open>Math.random().toString()\<close> produced in these calls. On
  a store that starts empty, the ids are pairwise unequal exactly when the draws are.
  (Listeners write only to the arrays they are handed and leave objects alone.)
\<close>

theorem C2_ids_are_the_draws:
  assumes "store_ok this h"
    and "\<forall>l \<in> set (listeners this). writes_only_received l"
    and "\<forall>l \<in> set (listeners this). leaves_objects l"
    and "addProjects args (this, h) = (log, this', h')"
  shows "map id' (elements h' (projects this')) = map id' (elements h (projects this)) @ map fst args
    \<and> (arrays h ! projects this = [] \<longrightarrow>
          distinct (map id' (elements h' (projects this'))) = distinct (map fst args))"
proof -
  have this': "this' = this" using addProjects_arrays [OF assms(1,2,4)] by simp
  have "elements h' (projects this) = elements h (projects this) @ map constructed args"
    using addProjects_values [OF assms] by simp
  moreover have "map id' (map constructed args) = map fst args"
    by (induction args) auto
  ultimately have ids: "map id' (elements h' (projects this'))
      = map id' (elements h (projects this)) @ map fst args"
    using this' by simp
  then show ?thesis by (simp add: elements_def)
qed

text \<open>Two calls with different draws, on a store with the two list views registered.\<close>

theorem C2_ids_are_the_draws_witness:
  "store_ok \<lparr>listeners = [ProjectList_listener ''active'', ProjectList_listener ''finished ''],
              projects = 0\<rparr>
      (\<lparr>objects = [], arrays = [[]]\<rparr> :: int Heap)
   \<and> writes_only_received (ProjectList_listener ''active'' :: int Listener)
   \<and> writes_only_received (ProjectList_listener ''finished '' :: int Listener)
   \<and> leaves_objects (ProjectList_listener ''active'' :: int Listener)
   \<and> leaves_objects (ProjectList_listener ''finished '' :: int Listener)
   \<and> map id' (elements
         (snd (snd (addProjects [(''0.5'', ''A'', ''first'', 1::int), (''0.25'', ''B'', ''second'', 2)]
            (\<lparr>listeners = [ProjectList_listener ''active'', ProjectList_listener ''finished ''],
              projects = 0\<rparr>,
             \<lparr>objects = [], arrays = [[]]\<rparr>)))) 0)
       = [''0.5'', ''0.25'']"
proof -
  let ?S = "\<lparr>listeners = [ProjectList_listener ''active'', ProjectList_listener ''finished ''],
              projects = 0\<rparr> :: int ProjectState"
  let ?H = "\<lparr>objects = [], arrays = [[]]\<rparr> :: int Heap"
  define R where "R = addProjects [(''0.5'', ''A'', ''first'', 1::int), (''0.25'', ''B'', ''second'', 2)]
     (?S, ?H)"
  have ok: "store_ok ?S ?H" by (simp add: store_ok_def)
  have wl: "\<forall>l \<in> set (listeners ?S). writes_only_received l"
    by (simp add: ProjectList_listener_writes)
  have ll: "\<forall>l \<in> set (listeners ?S). leaves_objects l"
    by (simp add: ProjectList_listener_leaves)
  have run: "addProjects [(''0.5'', ''A'', ''first'', 1::int), (''0.25'', ''B'', ''second'', 2)]
     (?S, ?H) = (fst R, fst (snd R), snd (snd R))" by (simp add: R_def)
  have this': "fst (snd R) = ?S" using addProjects_arrays [OF ok wl run] by simp
  have "map id' (elements (snd (snd R)) (projects (fst (snd R))))
      = map id' (elements ?H (projects ?S))
        @ map fst [(''0.5'', ''A'', ''first'', 1::int), (''0.25'', ''B'', ''second'', 2)]"
    using C2_ids_are_the_draws [OF ok wl ll run] by blast
  then have "map id' (elements (snd (snd R)) 0) = [''0.5'', ''0.25'']"
    by (simp add: this' elements_def)
  then have "map id' (elements
         (snd (snd (addProjects [(''0.5'', ''A'', ''first'', 1::int), (''0.25'', ''B'', ''second'', 2)]
            (?S, ?H)))) 0) = [''0.5'', ''0.25'']"
    unfolding R_def .
  then show ?thesis
    using ok ProjectList_listener_writes [of "''active''"]
      ProjectList_listener_writes [of "''finished ''"]
      ProjectList_listener_leaves [of "''active''"]
      ProjectList_listener_leaves [of "''finished ''"]
    by (intro conjI)
qed

text \<open>
  \<^bold>\<open>C3.\<close> One call of \<^verbatim>\<open>addProject\<close> invokes the registered listeners once per
  registration, in the order of registration; \<^verbatim>\<open>addListener\<close> appends without
  looking for duplicates, so a function registered twice is called twice. The
  invocations are what makes the heap the call returns: starting from the heap after the
  push, each listener in turn is applied to a fresh slice of the store's array, the
  \<open>i\<close>-th recorded call holds the reference and the heap the \<open>i\<close>-th listener was
  applied to, and the heap after the last listener is the one returned. The array
  each invocation receives contains the reference of the object just created, and, if
  the listeners leave objects alone, the object as constructed. For this last part
  the listeners write only to the arrays they are handed: the store's own array is
  \<^verbatim>\<open>private\<close>, and a listener that emptied it would leave nothing for the next one.
\<close>

theorem C3_notification_completeness:
  fixes this :: "'n ProjectState" and h h' :: "'n Heap" and n :: 'n
    and rnd t d :: string and f :: "'n Listener"
  defines "pushed \<equiv> push (projects this) (fst (new_Project (constructed (rnd, t, d, n)) h))
                        (snd (new_Project (constructed (rnd, t, d, n)) h))"
    and "invoke \<equiv> \<lambda>g l. l (fst (slice (projects this) g)) (snd (slice (projects this) g))"
  assumes run: "addProject rnd t d n (this, h) = (calls, this', h')"
  shows "map callee calls = listeners this
    \<and> listeners (addListener f this) = listeners this @ [f]
    \<and> h' = foldl invoke pushed (listeners this)
    \<and> (\<forall>i < length (listeners this).
          items (calls ! i) = fst (slice (projects this) (foldl invoke pushed (take i (listeners this))))
        \<and> pre (calls ! i) = snd (slice (projects this) (foldl invoke pushed (take i (listeners this))))
        \<and> foldl invoke pushed (take (Suc i) (listeners this))
            = callee (calls ! i) (items (calls ! i)) (pre (calls ! i)))
    \<and> (store_ok this h \<and> (\<forall>l \<in> set (listeners this). writes_only_received l) \<longrightarrow>
          (\<forall>c \<in> set calls.
             fst (new_Project (constructed (rnd, t, d, n)) h) \<in> set (arrays (pre c) ! items c)))
    \<and> (store_ok this h
          \<and> (\<forall>l \<in> set (listeners this). writes_only_received l \<and> leaves_objects l) \<longrightarrow>
          (\<forall>c \<in> set calls. constructed (rnd, t, d, n) \<in> set (elements (pre c) (items c))))"
proof -
  have loop: "addProject_loop (listeners this) (projects this) pushed = (calls, h')"
    using run by (simp add: addProject_unfold pushed_def new_Project_def)
  have "map callee calls = listeners this" using loop by (rule loop_callee)
  moreover have "h' = foldl invoke pushed (listeners this)"
    using loop_heap [OF loop] by (simp add: invoke_def)
  moreover have "\<forall>i < length (listeners this).
          items (calls ! i) = fst (slice (projects this) (foldl invoke pushed (take i (listeners this))))
        \<and> pre (calls ! i) = snd (slice (projects this) (foldl invoke pushed (take i (listeners this))))
        \<and> foldl invoke pushed (take (Suc i) (listeners this))
            = callee (calls ! i) (items (calls ! i)) (pre (calls ! i))"
  proof (intro allI impI)
    fix i assume i: "i < length (listeners this)"
    note R = loop_records [OF loop i, folded invoke_def]
    have "foldl invoke pushed (take (Suc i) (listeners this))
        = invoke (foldl invoke pushed (take i (listeners this))) (listeners this ! i)"
      using i by (simp add: take_Suc_conv_app_nth)
    also have "\<dots> = callee (calls ! i) (items (calls ! i)) (pre (calls ! i))"
      using R by (simp add: invoke_def)
    finally show "items (calls ! i) = fst (slice (projects this) (foldl invoke pushed (take i (listeners this))))
        \<and> pre (calls ! i) = snd (slice (projects this) (foldl invoke pushed (take i (listeners this))))
        \<and> foldl invoke pushed (take (Suc i) (listeners this))
            = callee (calls ! i) (items (calls ! i)) (pre (calls ! i))"
      using R by simp
  qed
  moreover have "\<forall>c \<in> set calls.
      fst (new_Project (constructed (rnd, t, d, n)) h) \<in> set (arrays (pre c) ! items c)"
    if "store_ok this h" and "\<forall>l \<in> set (listeners this). writes_only_received l"
    using addProject_arrays [OF that run] by (simp add: new_Project_def)
  moreover have "\<forall>c \<in> set calls. constructed (rnd, t, d, n) \<in> set (elements (pre c) (items c))"
    if "store_ok this h"
      and "\<forall>l \<in> set (listeners this). writes_only_received l \<and> leaves_objects l"
  proof -
    have wl: "\<forall>l \<in> set (listeners this). writes_only_received l"
      and ll: "\<forall>l \<in> set (listeners this). leaves_objects l"
      using that(2) by simp_all
    show ?thesis using addProject_values [OF that(1) wl ll run] by simp
  qed
  ultimately show ?thesis by (simp add: addListener_def)
qed

text \<open>
  Three registrations: the \<^verbatim>\<open>"active"\<close> view between two registrations of one
  function, which empties the array it is handed. The returned heap shows the effect of
  each of the three invocations: arrays 1 and 4 were handed to the two invocations of
  that function and are empty, array 2 was handed to the view and array 3 is the
  filtered array the view allocated.
\<close>

theorem C3_notification_completeness_witness:
  "store_ok (addListener truncate_array (addListener (ProjectList_listener ''active'')
       (addListener truncate_array \<lparr>listeners = [], projects = 0\<rparr>)))
     (\<lparr>objects = [], arrays = [[]]\<rparr> :: int Heap)
   \<and> writes_only_received (truncate_array :: int Listener)
   \<and> writes_only_received (ProjectList_listener ''active'' :: int Listener)
   \<and> map callee (fst (addProject ''0.5'' ''Build API'' ''Design the service'' (3::int)
         (addListener truncate_array (addListener (ProjectList_listener ''active'')
            (addListener truncate_array \<lparr>listeners = [], projects = 0\<rparr>)),
          \<lparr>objects = [], arrays = [[]]\<rparr>)))
       = [truncate_array, ProjectList_listener ''active'', truncate_array]
   \<and> list_all (\<lambda>c. 0 \<in> set (arrays (pre c) ! items c))
        (fst (addProject ''0.5'' ''Build API'' ''Design the service'' (3::int)
         (addListener truncate_array (addListener (ProjectList_listener ''active'')
            (addListener truncate_array \<lparr>listeners = [], projects = 0\<rparr>)),
          \<lparr>objects = [], arrays = [[]]\<rparr>)))
   \<and> snd (snd (addProject ''0.5'' ''Build API'' ''Design the service'' (3::int)
         (addListener truncate_array (addListener (ProjectList_listener ''active'')
            (addListener truncate_array \<lparr>listeners = [], projects = 0\<rparr>)),
          \<lparr>objects = [], arrays = [[]]\<rparr>)))
       = \<lparr>objects = [\<lparr>id' = ''0.5'', title = ''Build API'',
                        description = ''Design the service'', people = 3, status = Active\<rparr>],
          arrays = [[0], [], [0], [0], []]\<rparr>
   \<and> map items (fst (addProject ''0.5'' ''Build API'' ''Design the service'' (3::int)
         (addListener truncate_array (addListener (ProjectList_listener ''active'')
            (addListener truncate_array \<lparr>listeners = [], projects = 0\<rparr>)),
          \<lparr>objects = [], arrays = [[]]\<rparr>)))
       = [1, 2, 4]"
proof -
  let ?S = "addListener truncate_array (addListener (ProjectList_listener ''active'')
       (addListener truncate_array \<lparr>listeners = [], projects = 0\<rparr>)) :: int ProjectState"
  let ?H = "\<lparr>objects = [], arrays = [[]]\<rparr> :: int Heap"
  define R where "R = addProject ''0.5'' ''Build API'' ''Design the service'' (3::int) (?S, ?H)"
  have ok: "store_ok ?S ?H" by (simp add: store_ok_def addListener_def)
  have w1: "writes_only_received (truncate_array :: int Listener)"
    by (simp add: writes_only_received_def truncate_array_def)
  have w2: "writes_only_received (ProjectList_listener ''active'' :: int Listener)"
    by (rule ProjectList_listener_writes)
  have wl: "\<forall>l \<in> set (listeners ?S). writes_only_received l"
    using w1 w2 by (simp add: addListener_def)
  have run: "addProject ''0.5'' ''Build API'' ''Design the service'' (3::int) (?S, ?H)
      = (fst R, fst (snd R), snd (snd R))" by (simp add: R_def)
  note T = C3_notification_completeness [OF run]
  have ls: "listeners ?S = [truncate_array, ProjectList_listener ''active'', truncate_array]"
    by (simp add: addListener_def)
  have a: "map callee (fst R) = [truncate_array, ProjectList_listener ''active'', truncate_array]"
    using T ls by simp
  have "\<forall>c \<in> set (fst R).
      fst (new_Project (constructed (''0.5'', ''Build API'', ''Design the service'', 3::int)) ?H)
        \<in> set (arrays (pre c) ! items c)"
    using T ok wl by blast
  then have b: "list_all (\<lambda>c. 0 \<in> set (arrays (pre c) ! items c)) (fst R)"
    by (simp add: new_Project_def list_all_iff)
  have c: "snd (snd R)
       = \<lparr>objects = [\<lparr>id' = ''0.5'', title = ''Build API'',
                        description = ''Design the service'', people = 3, status = Active\<rparr>],
          arrays = [[0], [], [0], [0], []]\<rparr>"
    using T
    by (simp add: ls new_Project_def push_def slice_def truncate_array_def
        ProjectList_listener_def addListener_def)
  have len: "length (fst R) = 3" using a by (metis length_map length_Cons list.size(3) numeral_3_eq_3)
  have i0: "items (fst R ! 0) = 1" and i1: "items (fst R ! 1) = 2" and i2: "items (fst R ! 2) = 4"
    using T
    by (simp_all add: ls new_Project_def push_def slice_def truncate_array_def
        ProjectList_listener_def addListener_def)
  have d: "map items (fst R) = [1, 2, 4]"
  proof (rule nth_equalityI)
    show "length (map items (fst R)) = length [1, 2, 4 :: nat]" using len by simp
  next
    fix i assume "i < length (map items (fst R))"
    then have "i = 0 \<or> i = 1 \<or> i = 2" using len by auto
    then show "map items (fst R) ! i = [1, 2, 4] ! i"
      using i0 i1 i2 len by auto
  qed
  show ?thesis using ok w1 w2 a b c d unfolding R_def by (intro conjI)
qed

text \<open>
  \<^bold>\<open>C4\<close> says that a snapshot is a fully independent copy of the store's state, so that
  nothing done to a snapshot shows in the store. \<^verbatim>\<open>slice()\<close> copies the array, not
  the objects in it. On a new store with the \<^verbatim>\<open>"active"\<close> view registered, one
  \<^verbatim>\<open>addProject\<close> hands the listener array 1, while the store's array is array 0 and
  holds the project titled \<^verbatim>\<open>"Build API"\<close>. Assigning to the \<^verbatim>\<open>title\<close> of
  element 0 of array 1 changes the project the store holds.
\<close>

theorem C4_entities_shared_counterexample:
  "projects (fst (new_ProjectState (empty_heap :: int Heap))) = 0
   \<and> map items (fst (addProject ''0.5'' ''Build API'' ''Design the service'' (3::int)
       (addListener (ProjectList_listener ''active'') (fst (new_ProjectState empty_heap)),
        snd (new_ProjectState empty_heap)))) = [1]
   \<and> elements
       (snd (snd (addProject ''0.5'' ''Build API'' ''Design the service'' (3::int)
          (addListener (ProjectList_listener ''active'') (fst (new_ProjectState empty_heap)),
           snd (new_ProjectState empty_heap))))) 0
     = [\<lparr>id' = ''0.5'', title = ''Build API'', description = ''Design the service'',
         people = 3, status = Active\<rparr>]
   \<and> assign_title 1 0 ''changed''
       (snd (snd (addProject ''0.5'' ''Build API'' ''Design the service'' (3::int)
          (addListener (ProjectList_listener ''active'') (fst (new_ProjectState empty_heap)),
           snd (new_ProjectState empty_heap)))))
     = Some \<lparr>objects = [\<lparr>id' = ''0.5'', title = ''changed'',
                           description = ''Design the service'', people = 3, status = Active\<rparr>],
             arrays = [[0], [0], [0]]\<rparr>
   \<and> elements
       \<lparr>objects = [\<lparr>id' = ''0.5'', title = ''changed'',
                     description = ''Design the service'', people = 3::int, status = Active\<rparr>],
        arrays = [[0], [0], [0]]\<rparr> 0
     = [\<lparr>id' = ''0.5'', title = ''changed'', description = ''Design the service'',
         people = 3, status = Active\<rparr>]"
  by (simp add: addProject_def new_Project_def push_def slice_def new_ProjectState_def
      empty_heap_def elements_def addListener_def assign_title_def ProjectList_listener_def)

text \<open>
  \<^bold>\<open>C4, amended.\<close> The snapshot is a copy of the array only. Each array handed to a
  listener is another array than the store's and holds the references the store holds;
  replacing its contents by anything leaves the store's array as it is; and a later
  \<^verbatim>\<open>addProject\<close> leaves the arrays handed out earlier as they are. (Listeners
  write only to the arrays they are handed; the objects are shared.)
\<close>

theorem C4_shallow_snapshot:
  assumes ok: "store_ok this h"
    and wl: "\<forall>l \<in> set (listeners this). writes_only_received l"
    and run1: "addProject r1 t1 d1 n1 (this, h) = (calls1, this1, h1)"
    and run2: "addProject r2 t2 d2 n2 (this1, h1) = (calls2, this2, h2)"
  shows "\<forall>c \<in> set calls1.
           items c \<noteq> projects this1
         \<and> arrays (pre c) ! items c = arrays h1 ! projects this1
         \<and> (\<forall>xs. arrays (h1\<lparr>arrays := (arrays h1)[items c := xs]\<rparr>) ! projects this1
                   = arrays h1 ! projects this1)
         \<and> arrays h2 ! items c = arrays h1 ! items c"
proof
  fix c assume c: "c \<in> set calls1"
  note A1 = addProject_arrays [OF ok wl run1]
  have this1: "this1 = this" and ok1: "store_ok this h1" using A1 by simp_all
  note A2 = addProject_arrays [OF ok1 wl run2 [unfolded this1]]
  have p: "projects this < length (arrays h)" using ok by (simp add: store_ok_def)
  have lo: "length (arrays h) \<le> items c" and hi: "items c < length (arrays h1)"
    and snap: "arrays (pre c) ! items c = arrays h1 ! projects this"
    using A1 c by auto
  have ne: "items c \<noteq> projects this" using lo p by simp
  have "arrays h2 ! items c = arrays h1 ! items c" using A2 hi ne by simp
  then show "items c \<noteq> projects this1
         \<and> arrays (pre c) ! items c = arrays h1 ! projects this1
         \<and> (\<forall>xs. arrays (h1\<lparr>arrays := (arrays h1)[items c := xs]\<rparr>) ! projects this1
                   = arrays h1 ! projects this1)
         \<and> arrays h2 ! items c = arrays h1 ! items c"
    using ne snap this1 by simp
qed

text \<open>Two calls on a store whose one listener empties the array it is handed.\<close>

theorem C4_shallow_snapshot_witness:
  "store_ok \<lparr>listeners = [truncate_array], projects = 0\<rparr>
      (\<lparr>objects = [], arrays = [[]]\<rparr> :: int Heap)
   \<and> writes_only_received (truncate_array :: int Listener)
   \<and> list_all (\<lambda>c. items c \<noteq> 0 \<and> arrays (pre c) ! items c = [0])
        (fst (addProject ''0.5'' ''A'' ''first'' (1::int)
           (\<lparr>listeners = [truncate_array], projects = 0\<rparr>, \<lparr>objects = [], arrays = [[]]\<rparr>)))
   \<and> list_all (\<lambda>c.
          arrays (snd (snd (addProject ''0.25'' ''B'' ''second'' 2
            (snd (addProject ''0.5'' ''A'' ''first'' (1::int)
              (\<lparr>listeners = [truncate_array], projects = 0\<rparr>,
               \<lparr>objects = [], arrays = [[]]\<rparr>)))))) ! items c
          = arrays (snd (snd (addProject ''0.5'' ''A'' ''first'' (1::int)
              (\<lparr>listeners = [truncate_array], projects = 0\<rparr>,
               \<lparr>objects = [], arrays = [[]]\<rparr>)))) ! items c)
        (fst (addProject ''0.5'' ''A'' ''first'' (1::int)
           (\<lparr>listeners = [truncate_array], projects = 0\<rparr>, \<lparr>objects = [], arrays = [[]]\<rparr>)))"
proof -
  let ?S = "\<lparr>listeners = [truncate_array], projects = 0\<rparr> :: int ProjectState"
  let ?H = "\<lparr>objects = [], arrays = [[]]\<rparr> :: int Heap"
  define R1 where "R1 = addProject ''0.5'' ''A'' ''first'' (1::int) (?S, ?H)"
  define R2 where "R2 = addProject ''0.25'' ''B'' ''second'' (2::int) (snd R1)"
  have ok: "store_ok ?S ?H" by (simp add: store_ok_def)
  have w: "writes_only_received (truncate_array :: int Listener)"
    by (simp add: writes_only_received_def truncate_array_def)
  have wl: "\<forall>l \<in> set (listeners ?S). writes_only_received l" using w by simp
  have run1: "addProject ''0.5'' ''A'' ''first'' (1::int) (?S, ?H)
      = (fst R1, fst (snd R1), snd (snd R1))" by (simp add: R1_def)
  have run2: "addProject ''0.25'' ''B'' ''second'' (2::int) (fst (snd R1), snd (snd R1))
      = (fst R2, fst (snd R2), snd (snd R2))" by (simp add: R2_def)
  note T = C4_shallow_snapshot [OF ok wl run1 run2]
  have this1: "fst (snd R1) = ?S" and at1: "arrays (snd (snd R1)) ! 0 = [0]"
    using addProject_arrays [OF ok wl run1] by simp_all
  have a: "list_all (\<lambda>c. items c \<noteq> 0 \<and> arrays (pre c) ! items c = [0]) (fst R1)"
    using T by (simp add: list_all_iff this1 at1)
  have b: "list_all (\<lambda>c. arrays (snd (snd R2)) ! items c = arrays (snd (snd R1)) ! items c) (fst R1)"
    using T by (simp add: list_all_iff)
  show ?thesis using ok w a b unfolding R2_def R1_def by (intro conjI)
qed

text \<open>
  \<^bold>\<open>C5.\<close> The people field goes to \<^verbatim>\<open>validate\<close> as the entered text. The
  \<^verbatim>\<open>min\<close> and \<^verbatim>\<open>max\<close> rules apply to numbers only, so whatever bounds are
  declared, the field is valid exactly when the trimmed text is not empty: \<^verbatim>\<open>"1"\<close>,
  \<^verbatim>\<open>"100"\<close> and \<^verbatim>\<open>"abc"\<close> all pass. In \<^verbatim>\<open>gatherUserInput\<close> the alert branch
  is taken exactly when title and description are valid and the trimmed people text is
  not empty.
\<close>

theorem C5_people_checked_as_text:
  "value' (peopleValidatable s) = Str s
   \<and> validate (peopleValidatable s) = (trim s \<noteq> [])
   \<and> validate ((peopleValidatable s)\<lparr>min' := lo, max' := hi\<rparr>) = validate (peopleValidatable s)
   \<and> validate (peopleValidatable ''1'')
   \<and> validate (peopleValidatable ''100'')
   \<and> validate (peopleValidatable ''abc'')
   \<and> (fst (gatherUserInput toNumber app) = None)
       = (validate (titleValidatable (titleInputElement (prjInput app)))
          \<and> validate (descriptionValidatable (descriptionInputElement (prjInput app)))
          \<and> trim (peopleInputElement (prjInput app)) \<noteq> [])"
proof -
  have v: "validate ((peopleValidatable x)\<lparr>min' := lo', max' := hi'\<rparr>) = (trim x \<noteq> [])"
    for x lo' hi'
    by (simp add: validate_def peopleValidatable_def Let_def split: option.splits)
  have p: "validate (peopleValidatable x) = (trim x \<noteq> [])" for x
    by (simp add: validate_def peopleValidatable_def)
  have "trim ''1'' \<noteq> []" "trim ''100'' \<noteq> []" "trim ''abc'' \<noteq> []"
    by (simp_all add: trim_def isWhiteSpace_def)
  then show ?thesis
    by (simp add: v p gatherUserInput_def Let_def) (simp add: peopleValidatable_def)
qed

text \<open>
  \<^bold>\<open>C6.\<close> Every entity of a snapshot is in exactly one of the two subsets the list
  views compute: in that of the \<^verbatim>\<open>"active"\<close> view when its status is
  \<^verbatim>\<open>Active\<close>, in that of the \<^verbatim>\<open>"finished "\<close> view when it is \<^verbatim>\<open>Finished\<close>.
\<close>

theorem C6_filter_partition:
  assumes "E \<in> set snapshot"
  shows "(status E = Active \<and> E \<in> set (relevantProjects ''active'' snapshot)
            \<and> E \<notin> set (relevantProjects ''finished '' snapshot))
       \<or> (status E = Finished \<and> E \<notin> set (relevantProjects ''active'' snapshot)
            \<and> E \<in> set (relevantProjects ''finished '' snapshot))"
  using assms by (cases "status E") (simp_all add: relevantProjects_def)

text \<open>A snapshot of one active and one finished project.\<close>

theorem C6_filter_partition_witness:
  "\<lparr>id' = ''0.5'', title = ''A'', description = ''first'', people = 1::int, status = Active\<rparr>
     \<in> set [\<lparr>id' = ''0.5'', title = ''A'', description = ''first'', people = 1, status = Active\<rparr>,
            \<lparr>id' = ''0.25'', title = ''B'', description = ''second'', people = 2, status = Finished\<rparr>]
   \<and> \<lparr>id' = ''0.5'', title = ''A'', description = ''first'', people = 1::int, status = Active\<rparr>
     \<in> set (relevantProjects ''active''
           [\<lparr>id' = ''0.5'', title = ''A'', description = ''first'', people = 1, status = Active\<rparr>,
            \<lparr>id' = ''0.25'', title = ''B'', description = ''second'', people = 2, status = Finished\<rparr>])
   \<and> \<lparr>id' = ''0.5'', title = ''A'', description = ''first'', people = 1::int, status = Active\<rparr>
     \<notin> set (relevantProjects ''finished ''
           [\<lparr>id' = ''0.5'', title = ''A'', description = ''first'', people = 1, status = Active\<rparr>,
            \<lparr>id' = ''0.25'', title = ''B'', description = ''second'', people = 2, status = Finished\<rparr>])"
proof -
  let ?E = "\<lparr>id' = ''0.5'', title = ''A'', description = ''first'', people = 1::int, status = Active\<rparr>"
  let ?L = "[?E, \<lparr>id' = ''0.25'', title = ''B'', description = ''second'', people = 2, status = Finished\<rparr>]"
  have m: "?E \<in> set ?L" by simp
  from C6_filter_partition [OF m] m show ?thesis by simp
qed

text \<open>
  \<^bold>\<open>C7.\<close> \<^verbatim>\<open>validate\<close> is the conjunction of the rules that apply: the required
  rule; for a string, length strictly greater than \<^verbatim>\<open>minLength\<close> and strictly less
  than \<^verbatim>\<open>maxLength\<close>; for a number, value strictly greater than \<^verbatim>\<open>min\<close> and
  strictly less than \<^verbatim>\<open>max\<close>. A value equal to a bound fails the rule.
\<close>

theorem C7_validate_exclusive_bounds:
  "validate v =
     ((required v = Some True \<longrightarrow> length (trim (toString (value' v))) \<noteq> 0)
      \<and> (\<forall>b s. minLength v = Some b \<and> value' v = Str s \<longrightarrow> greater_number (Num (int (length s))) b)
      \<and> (\<forall>b s. maxLength v = Some b \<and> value' v = Str s \<longrightarrow> less_number (Num (int (length s))) b)
      \<and> (\<forall>b n. min' v = Some b \<and> value' v = Number n \<longrightarrow> greater_number n b)
      \<and> (\<forall>b n. max' v = Some b \<and> value' v = Number n \<longrightarrow> less_number n b))
   \<and> greater_number (Num x) (Num y) = (y < x)
   \<and> less_number (Num x) (Num y) = (x < y)"
  by (auto simp: validate_def greater_number_def split: option.splits Value.splits)

text \<open>Values at and next to each bound.\<close>

theorem C7_validate_exclusive_bounds_witness:
  "\<not> validate (descriptionValidatable ''12345'')
   \<and> validate (descriptionValidatable ''123456'')
   \<and> \<not> validate \<lparr>value' = Str ''12345'', required = None, minLength = None,
                  maxLength = Some (Num 5), min' = None, max' = None\<rparr>
   \<and> validate \<lparr>value' = Str ''1234'', required = None, minLength = None,
                maxLength = Some (Num 5), min' = None, max' = None\<rparr>
   \<and> \<not> validate \<lparr>value' = Number (Num 2), required = Some True, minLength = None,
                  maxLength = None, min' = Some (Num 2), max' = Some (Num 5)\<rparr>
   \<and> validate \<lparr>value' = Number (Num 3), required = Some True, minLength = None,
                maxLength = None, min' = Some (Num 2), max' = Some (Num 5)\<rparr>
   \<and> \<not> validate \<lparr>value' = Number (Num 5), required = Some True, minLength = None,
                  maxLength = None, min' = Some (Num 2), max' = Some (Num 5)\<rparr>"
proof -
  have t: "trim ''12345'' \<noteq> []" "trim ''123456'' \<noteq> []"
    "trim (number_to_string (Num 2)) \<noteq> []" "trim (number_to_string (Num 3)) \<noteq> []"
    "trim (number_to_string (Num 5)) \<noteq> []"
    by (simp_all add: trim_def isWhiteSpace_def int_to_string_def nat_to_string.simps digit_char_def)
  show ?thesis
    using t
      C7_validate_exclusive_bounds [of "descriptionValidatable ''12345''"]
      C7_validate_exclusive_bounds [of "descriptionValidatable ''123456''"]
      C7_validate_exclusive_bounds [of "\<lparr>value' = Str ''12345'', required = None, minLength = None,
                  maxLength = Some (Num 5), min' = None, max' = None\<rparr>"]
      C7_validate_exclusive_bounds [of "\<lparr>value' = Str ''1234'', required = None, minLength = None,
                maxLength = Some (Num 5), min' = None, max' = None\<rparr>"]
      C7_validate_exclusive_bounds [of "\<lparr>value' = Number (Num 2), required = Some True, minLength = None,
                  maxLength = None, min' = Some (Num 2), max' = Some (Num 5)\<rparr>"]
      C7_validate_exclusive_bounds [of "\<lparr>value' = Number (Num 3), required = Some True, minLength = None,
                maxLength = None, min' = Some (Num 2), max' = Some (Num 5)\<rparr>"]
      C7_validate_exclusive_bounds [of "\<lparr>value' = Number (Num 5), required = Some True, minLength = None,
                  maxLength = None, min' = Some (Num 2), max' = Some (Num 5)\<rparr>"]
    by (simp add: descriptionValidatable_def greater_number_def)
qed

text \<open>
  \<^bold>\<open>C8.\<close> After any sequence of \<^verbatim>\<open>addProject\<close> calls the store's array is what
  it was before, followed by one new reference per call; every snapshot emitted during
  the \<open>i\<close>-th call is the initial part of the final array that ends with the \<open>i\<close>-th
  new element. Nothing is reordered or removed. When the listeners leave objects alone,
  the new elements are the objects the calls constructed, in the order of the calls.
\<close>

theorem C8_append_only_order:
  assumes ok: "store_ok this h"
    and wl: "\<forall>l \<in> set (listeners this). writes_only_received l"
    and run: "addProjects args (this, h) = (log, this', h')"
  shows "length (arrays h' ! projects this') = length (arrays h ! projects this) + length args
    \<and> take (length (arrays h ! projects this)) (arrays h' ! projects this')
        = arrays h ! projects this
    \<and> (\<forall>i < length args. \<forall>c \<in> set (log ! i).
          arrays (pre c) ! items c
            = take (length (arrays h ! projects this) + Suc i) (arrays h' ! projects this'))
    \<and> ((\<forall>l \<in> set (listeners this). leaves_objects l) \<longrightarrow>
          elements h' (projects this') = elements h (projects this) @ map constructed args
        \<and> (\<forall>i < length args. \<forall>c \<in> set (log ! i).
              elements (pre c) (items c)
                = elements h (projects this) @ map constructed (take (Suc i) args)))"
proof -
  note A = addProjects_arrays [OF ok wl run]
  have this': "this' = this" using A by simp
  have "(\<forall>l \<in> set (listeners this). leaves_objects l) \<longrightarrow>
          elements h' (projects this') = elements h (projects this) @ map constructed args
        \<and> (\<forall>i < length args. \<forall>c \<in> set (log ! i).
              elements (pre c) (items c)
                = elements h (projects this) @ map constructed (take (Suc i) args))"
  proof
    assume ll: "\<forall>l \<in> set (listeners this). leaves_objects l"
    show "elements h' (projects this') = elements h (projects this) @ map constructed args
        \<and> (\<forall>i < length args. \<forall>c \<in> set (log ! i).
              elements (pre c) (items c)
                = elements h (projects this) @ map constructed (take (Suc i) args))"
      using addProjects_values [OF ok wl ll run] this' by simp
  qed
  then show ?thesis using A this' by simp
qed

text \<open>
  Two calls on a store with the two list views registered: the final contents, and the
  snapshots emitted by the first call.
\<close>

theorem C8_append_only_order_witness:
  "store_ok \<lparr>listeners = [ProjectList_listener ''active'', ProjectList_listener ''finished ''],
              projects = 0\<rparr>
      (\<lparr>objects = [], arrays = [[]]\<rparr> :: int Heap)
   \<and> writes_only_received (ProjectList_listener ''active'' :: int Listener)
   \<and> writes_only_received (ProjectList_listener ''finished '' :: int Listener)
   \<and> leaves_objects (ProjectList_listener ''active'' :: int Listener)
   \<and> leaves_objects (ProjectList_listener ''finished '' :: int Listener)
   \<and> elements
        (snd (snd (addProjects [(''0.5'', ''A'', ''first'', 1::int), (''0.25'', ''B'', ''second'', 2)]
           (\<lparr>listeners = [ProjectList_listener ''active'', ProjectList_listener ''finished ''],
              projects = 0\<rparr>,
            \<lparr>objects = [], arrays = [[]]\<rparr>)))) 0
       = [\<lparr>id' = ''0.5'', title = ''A'', description = ''first'', people = 1, status = Active\<rparr>,
          \<lparr>id' = ''0.25'', title = ''B'', description = ''second'', people = 2, status = Active\<rparr>]
   \<and> list_all (\<lambda>c. elements (pre c) (items c)
          = [\<lparr>id' = ''0.5'', title = ''A'', description = ''first'', people = 1, status = Active\<rparr>])
        (fst (addProjects [(''0.5'', ''A'', ''first'', 1::int), (''0.25'', ''B'', ''second'', 2)]
           (\<lparr>listeners = [ProjectList_listener ''active'', ProjectList_listener ''finished ''],
              projects = 0\<rparr>,
            \<lparr>objects = [], arrays = [[]]\<rparr>)) ! 0)"
proof -
  let ?S = "\<lparr>listeners = [ProjectList_listener ''active'', ProjectList_listener ''finished ''],
              projects = 0\<rparr> :: int ProjectState"
  let ?H = "\<lparr>objects = [], arrays = [[]]\<rparr> :: int Heap"
  define R where "R = addProjects [(''0.5'', ''A'', ''first'', 1::int), (''0.25'', ''B'', ''second'', 2)]
     (?S, ?H)"
  have ok: "store_ok ?S ?H" by (simp add: store_ok_def)
  have wl: "\<forall>l \<in> set (listeners ?S). writes_only_received l"
    by (simp add: ProjectList_listener_writes)
  have ll: "\<forall>l \<in> set (listeners ?S). leaves_objects l"
    by (simp add: ProjectList_listener_leaves)
  have run: "addProjects [(''0.5'', ''A'', ''first'', 1::int), (''0.25'', ''B'', ''second'', 2)]
     (?S, ?H) = (fst R, fst (snd R), snd (snd R))" by (simp add: R_def)
  note T = C8_append_only_order [OF ok wl run]
  have this': "fst (snd R) = ?S" using addProjects_arrays [OF ok wl run] by simp
  have a: "elements (snd (snd R)) 0
       = [\<lparr>id' = ''0.5'', title = ''A'', description = ''first'', people = 1, status = Active\<rparr>,
          \<lparr>id' = ''0.25'', title = ''B'', description = ''second'', people = 2, status = Active\<rparr>]"
    using T ll by (simp add: this' elements_def)
  have "\<forall>i < 2. \<forall>c \<in> set (fst R ! i). elements (pre c) (items c)
      = elements ?H 0
        @ map constructed
            (take (Suc i) [(''0.5'', ''A'', ''first'', 1::int), (''0.25'', ''B'', ''second'', 2)])"
    using T ll by simp
  then have "\<forall>c \<in> set (fst R ! 0). elements (pre c) (items c)
      = elements ?H 0 @ map constructed [(''0.5'', ''A'', ''first'', 1::int)]"
    by force
  then have b: "list_all (\<lambda>c. elements (pre c) (items c)
          = [\<lparr>id' = ''0.5'', title = ''A'', description = ''first'', people = 1, status = Active\<rparr>])
        (fst R ! 0)"
    by (simp add: list_all_iff elements_def)
  show ?thesis
    using ok a b ProjectList_listener_writes [of "''active''"]
      ProjectList_listener_writes [of "''finished ''"]
      ProjectList_listener_leaves [of "''active''"]
      ProjectList_listener_leaves [of "''finished ''"]
    unfolding R_def by (intro conjI)
qed

text \<open>
  \<^bold>\<open>C9.\<close> The label is \<^verbatim>\<open>"1 Person"\<close> exactly when the capacity is 1; for every
  other capacity it is the number followed by \<^verbatim>\<open>" persons"\<close>, so 2 gives
  \<^verbatim>\<open>"2 persons"\<close> and 0 gives \<^verbatim>\<open>"0 persons"\<close>. \<^verbatim>\<open>renderContent\<close> puts
  the label in front of \<^verbatim>\<open>"Persons assingend."\<close>.
\<close>

theorem C9_pluralized_label:
  "(persons project = ''1 Person'') = (people project = Num 1)
   \<and> (people project \<noteq> Num 1 \<longrightarrow>
        persons project = number_to_string (people project) @ '' persons'')
   \<and> persons (project\<lparr>people := Num 1\<rparr>) = ''1 Person''
   \<and> persons (project\<lparr>people := Num 2\<rparr>) = ''2 persons''
   \<and> persons (project\<lparr>people := Num 0\<rparr>) = ''0 persons''
   \<and> h3_textContent (project\<lparr>people := Num 1\<rparr>) = ''1 PersonPersons assingend.''
   \<and> h3_textContent (project\<lparr>people := Num 2\<rparr>) = ''2 personsPersons assingend.''"
  by (simp add: h3_textContent_def persons_def append_persons_neq int_to_string_def
      nat_to_string.simps digit_char_def)

text \<open>A capacity of 12.\<close>

theorem C9_pluralized_label_witness:
  "people \<lparr>id' = ''0.5'', title = ''A'', description = ''first'', people = Num 12,
           status = Active\<rparr> \<noteq> Num 1
   \<and> persons \<lparr>id' = ''0.5'', title = ''A'', description = ''first'', people = Num 12,
              status = Active\<rparr> = ''12 persons''"
  using C9_pluralized_label [of "\<lparr>id' = ''0.5'', title = ''A'', description = ''first'',
      people = Num 12, status = Active\<rparr>"]
  by (simp add: int_to_string_def nat_to_string.simps digit_char_def)



end
